theory Spec2Isabelle
  imports Main "HOL-Library.Sublist" "HOL-Library.Multiset"
begin

section \<open>Strings\<close>

text \<open>
  A JavaScript string is modelled as a \<^typ>\<open>string\<close> holding the UTF-8 bytes of its text.
  The program only concatenates strings, splits them at the ASCII characters line feed and
  slash, and compares ASCII suffixes and whole names; all of these act on the UTF-8 bytes
  exactly as they act on the UTF-16 code units.  The non-ASCII literals of
  \<^verbatim>\<open>project-analyzer.js\<close> are written as their bytes.
\<close>

definition nl :: string where
  "nl = ''\<newline>''"

text \<open>\<^verbatim>\<open>String.prototype.split\<close> with a one-character separator: the empty string splits
  into one empty piece, and a trailing separator gives a trailing empty piece.\<close>

fun js_split :: "char \<Rightarrow> string \<Rightarrow> string list" where
  "js_split sep [] = [[]]"
| "js_split sep (c # cs) =
     (if c = sep then [] # js_split sep cs
      else (case js_split sep cs of
              [] \<Rightarrow> [[c]]
            | l # ls \<Rightarrow> (c # l) # ls))"

text \<open>\<^verbatim>\<open>Array.prototype.join\<close>.\<close>

fun js_join :: "string \<Rightarrow> string list \<Rightarrow> string" where
  "js_join sep [] = []"
| "js_join sep [x] = x"
| "js_join sep (x # y # ys) = x @ sep @ js_join sep (y # ys)"

text \<open>\<^verbatim>\<open>String.prototype.endsWith\<close>.\<close>

definition endsWith :: "string \<Rightarrow> string \<Rightarrow> bool" where
  "endsWith s suf \<longleftrightarrow> length suf \<le> length s \<and> drop (length s - length suf) s = suf"

section \<open>Node's \<^verbatim>\<open>path.join\<close> (POSIX)\<close>

text \<open>
  \<^verbatim>\<open>path.join\<close> is library code.  It is modelled after Node's POSIX implementation:
  the non-empty arguments are joined with a slash and the result is normalised.
  Normalisation works segment by segment: empty segments and \<^verbatim>\<open>.\<close> are dropped,
  \<^verbatim>\<open>..\<close> removes the segment before it when there is one that is not itself
  \<^verbatim>\<open>..\<close>, and is kept only in a relative path.
\<close>

fun normalizeString :: "bool \<Rightarrow> string list \<Rightarrow> string list \<Rightarrow> string list" where
  "normalizeString allowAboveRoot res [] = res"
| "normalizeString allowAboveRoot res (s # ss) =
     (if s = [] \<or> s = ''.'' then normalizeString allowAboveRoot res ss
      else if s = ''..'' then
        (if res \<noteq> [] \<and> last res \<noteq> ''..'' then normalizeString allowAboveRoot (butlast res) ss
         else if allowAboveRoot then normalizeString allowAboveRoot (res @ [''..'']) ss
         else normalizeString allowAboveRoot res ss)
      else normalizeString allowAboveRoot (res @ [s]) ss)"

definition isAbsolute :: "string \<Rightarrow> bool" where
  "isAbsolute p \<longleftrightarrow> (case p of [] \<Rightarrow> False | c # _ \<Rightarrow> c = CHR ''/'')"

definition normalize :: "string \<Rightarrow> string" where
  "normalize p =
     (if p = [] then ''.''
      else
        let trailingSeparator = (last p = CHR ''/'');
            q = js_join ''/'' (normalizeString (\<not> isAbsolute p) [] (js_split (CHR ''/'') p))
        in if q = [] then (if isAbsolute p then ''/'' else if trailingSeparator then ''./'' else ''.'')
           else (if isAbsolute p then ''/'' else []) @ q @ (if trailingSeparator then ''/'' else []))"

definition path_join :: "string \<Rightarrow> string \<Rightarrow> string" where
  "path_join a b =
     (if a = [] then (if b = [] then ''.'' else normalize b)
      else if b = [] then normalize a
      else normalize (a @ ''/'' @ b))"

section \<open>The file system\<close>

text \<open>
  The file system the run sees is a finite tree rooted at the working directory.  A directory
  holds its entries in the order \<^verbatim>\<open>fs.readdir\<close> yields them.  The failures of the three
  file-system reads the program makes are part of the tree: a directory that cannot be
  listed, an entry whose \<^verbatim>\<open>fs.stat\<close> fails, a regular file that cannot be read.
  A regular file holds its text as \<^verbatim>\<open>fs.readFile(file, 'utf-8')\<close> decodes it.
\<close>

datatype node =
    File string
  | UnreadableFile
  | Dir "(string \<times> node) list"
  | UnlistableDir
  | NoStat

datatype error =
    ReaddirFailed string
  | StatFailed string
  | ReadFileFailed string
  | WriteFileFailed string

text \<open>\<^verbatim>\<open>(await fs.stat(p)).isDirectory()\<close> for the node found at \<open>p\<close>.\<close>

fun fs_stat :: "string \<Rightarrow> node \<Rightarrow> error + bool" where
  "fs_stat p (File c) = Inr False"
| "fs_stat p UnreadableFile = Inr False"
| "fs_stat p (Dir es) = Inr True"
| "fs_stat p UnlistableDir = Inr True"
| "fs_stat p NoStat = Inl (StatFailed p)"

text \<open>
  Path resolution from the working directory, for the paths the program passes to
  \<^verbatim>\<open>fs.readdir\<close> and \<^verbatim>\<open>fs.readFile\<close>: a path is resolved segment by
  segment, where an empty segment and \<^verbatim>\<open>.\<close> stay in the directory.  Paths that leave
  the tree (through \<^verbatim>\<open>..\<close>) do not resolve.
\<close>

fun walk :: "node \<Rightarrow> string list \<Rightarrow> node option" where
  "walk n [] = Some n"
| "walk n (s # ss) =
     (case n of
        Dir es \<Rightarrow>
          (if s = [] \<or> s = ''.'' then walk n ss
           else (case map_of es s of None \<Rightarrow> None | Some c \<Rightarrow> walk c ss))
      | _ \<Rightarrow> None)"

definition fs_lookup :: "node \<Rightarrow> string \<Rightarrow> node option" where
  "fs_lookup root p = walk root (js_split (CHR ''/'') p)"

definition fs_readFile :: "node \<Rightarrow> string \<Rightarrow> error + string" where
  "fs_readFile root p =
     (case fs_lookup root p of
        Some (File c) \<Rightarrow> Inr c
      | _ \<Rightarrow> Inl (ReadFileFailed p))"

section \<open>\<^verbatim>\<open>findImportantFiles\<close>\<close>

definition importantExtensions :: "string list" where
  "importantExtensions = [''.js'', ''.ts'', ''.jsx'', ''.tsx'', ''.py'', ''.java'', ''.cpp'', ''.go'']"

definition ignoreDirs :: "string list" where
  "ignoreDirs = [''node_modules'', ''.git'', ''dist'', ''build'']"

text \<open>
  The inner function \<^verbatim>\<open>scan\<close> with the array \<^verbatim>\<open>files\<close> it pushes to passed as state.
  \<open>scan\<close> is the call \<^verbatim>\<open>fs.readdir(currentPath)\<close> on the node at
  \<open>currentPath\<close>; \<open>scan_items\<close> is the loop over the listing.  An exception leaves
  the loop and every enclosing call at once.
\<close>

fun scan :: "string \<Rightarrow> node \<Rightarrow> string list \<Rightarrow> error + string list"
  and scan_items :: "string \<Rightarrow> (string \<times> node) list \<Rightarrow> string list \<Rightarrow> error + string list"
where
  "scan currentPath (Dir items) files = scan_items currentPath items files"
| "scan currentPath (File c) files = Inl (ReaddirFailed currentPath)"
| "scan currentPath UnreadableFile files = Inl (ReaddirFailed currentPath)"
| "scan currentPath UnlistableDir files = Inl (ReaddirFailed currentPath)"
| "scan currentPath NoStat files = Inl (ReaddirFailed currentPath)"
| "scan_items currentPath [] files = Inr files"
| "scan_items currentPath ((item, n) # items) files =
     (let fullPath = path_join currentPath item in
      case fs_stat fullPath n of
        Inl e \<Rightarrow> Inl e
      | Inr isDirectory \<Rightarrow>
          if isDirectory then
            (if item \<notin> set ignoreDirs then
               (case scan fullPath n files of
                  Inl e \<Rightarrow> Inl e
                | Inr files' \<Rightarrow> scan_items currentPath items files')
             else scan_items currentPath items files)
          else if list_ex (endsWith item) importantExtensions then
            scan_items currentPath items (files @ [fullPath])
          else scan_items currentPath items files)"

definition findImportantFiles :: "node \<Rightarrow> string \<Rightarrow> error + string list" where
  "findImportantFiles root dir =
     (case fs_lookup root dir of
        None \<Rightarrow> Inl (ReaddirFailed dir)
      | Some n \<Rightarrow> scan dir n [])"

section \<open>\<^verbatim>\<open>analyzeProject\<close>\<close>

text \<open>The string literals of lines 13, 19 and 30, non-ASCII text as UTF-8 bytes.\<close>

definition project_header :: string where
  "project_header =
     ''# '' @ map char_of [208, 144, 208, 189, 208, 176, 208, 187, 208, 184, 208, 183, 32,
                          208, 191, 209, 128, 208, 190, 208, 181, 208, 186, 209, 130, 208, 176 :: nat]
     @ nl @ nl"

definition file_heading :: string where
  "file_heading = ''## '' @ map char_of [208, 164, 208, 176, 208, 185, 208, 187 :: nat] @ '': ''"

definition analysis_prompt :: string where
  "analysis_prompt = map char_of
     [208, 159, 209, 128, 208, 190, 208, 176, 208, 189, 208, 176, 208, 187, 208, 184, 208, 183,
      208, 184, 209, 128, 209, 131, 208, 185, 32, 209, 141, 209, 130, 208, 190, 209, 130, 32,
      208, 191, 209, 128, 208, 190, 208, 181, 208, 186, 209, 130, 46, 32, 208, 157, 208, 176,
      208, 185, 208, 180, 208, 184, 58, 32, 49, 41, 32, 208, 158, 209, 136, 208, 184, 208, 177,
      208, 186, 208, 184, 32, 208, 184, 32, 208, 177, 208, 176, 208, 179, 208, 184, 44, 32, 50,
      41, 32, 208, 159, 209, 128, 208, 190, 208, 177, 208, 187, 208, 181, 208, 188, 209, 139,
      32, 208, 176, 209, 128, 209, 133, 208, 184, 209, 130, 208, 181, 208, 186, 209, 130, 209,
      131, 209, 128, 209, 139, 44, 32, 51, 41, 32, 208, 146, 208, 190, 208, 183, 208, 188, 208,
      190, 208, 182, 208, 189, 208, 190, 209, 129, 209, 130, 208, 184, 32, 208, 190, 208, 191,
      209, 130, 208, 184, 208, 188, 208, 184, 208, 183, 208, 176, 209, 134, 208, 184, 208, 184,
      44, 32, 52, 41, 32, 208, 157, 208, 176, 209, 128, 209, 131, 209, 136, 208, 181, 208, 189,
      208, 184, 209, 143, 32, 98, 101, 115, 116, 32, 112, 114, 97, 99, 116, 105, 99, 101, 115,
      46, 32, 208, 159, 209, 128, 208, 181, 208, 180, 208, 187, 208, 190, 208, 182, 208, 184,
      32, 208, 186, 208, 190, 208, 189, 208, 186, 209, 128, 208, 181, 209, 130, 208, 189, 209,
      139, 208, 181, 32, 208, 184, 209, 129, 208, 191, 209, 128, 208, 176, 208, 178, 208, 187,
      208, 181, 208, 189, 208, 184, 209, 143, 46 :: nat]"

definition digest_file :: string where
  "digest_file = ''_project_analysis.txt''"

definition report_file :: string where
  "report_file = ''_qwen_analysis_report.txt''"

definition qwen_command :: string where
  "qwen_command = ''qwen code --file _project_analysis.txt '' @ [CHR 0x22] @ analysis_prompt @ [CHR 0x22]"

text \<open>
  What the run prints.  The fixed messages are constructors, named by the line of
  \<^verbatim>\<open>project-analyzer.js\<close> that prints them; the variable parts are arguments.
\<close>

datatype exec_error = NonZeroExit int | SpawnError string

datatype console_entry =
    LogAnalyzing                  \<comment> \<open>line 7\<close>
  | LogReadFailed string          \<comment> \<open>line 21, the warning with the file's path\<close>
  | LogSending                    \<comment> \<open>line 29\<close>
  | ErrExec exec_error            \<comment> \<open>line 33, \<^verbatim>\<open>console.error\<close>\<close>
  | LogResults                    \<comment> \<open>line 36\<close>
  | LogStdout string              \<comment> \<open>line 37\<close>
  | LogSaved                      \<comment> \<open>line 41\<close>
  | ErrRejected error             \<comment> \<open>line 74, \<^verbatim>\<open>.catch(console.error)\<close>\<close>
  | ErrUnhandled error            \<comment> \<open>the runtime's report of the rejected, unawaited write of line 40\<close>

text \<open>
  The environment of one run: the file system it reads, which of its writes succeed, and
  what the callback of \<^verbatim>\<open>exec\<close> receives (\<^verbatim>\<open>error\<close>, \<^verbatim>\<open>stdout\<close>,
  \<^verbatim>\<open>stderr\<close>).  The external tool is opaque.
\<close>

record env =
  fs :: node
  writable :: "string \<Rightarrow> bool"
  exec_result :: "exec_error option \<times> string \<times> string"

text \<open>
  The effects of a run: the files it has written in the working directory (on top of
  whatever was there before), the console, and the commands handed to \<^verbatim>\<open>exec\<close>.
  Every read of the run comes before its first write, and the names written end in
  \<^verbatim>\<open>.txt\<close>, so the writes are kept apart from the tree that is read.
\<close>

record state =
  artifacts :: "string \<rightharpoonup> string"
  console :: "console_entry list"
  spawned :: "string list"

definition console_log :: "console_entry \<Rightarrow> state \<Rightarrow> state" where
  "console_log m s = s\<lparr>console := console s @ [m]\<rparr>"

definition fs_writeFile :: "env \<Rightarrow> string \<Rightarrow> string \<Rightarrow> state \<Rightarrow> error + state" where
  "fs_writeFile e name data s =
     (if writable e name then Inr (s\<lparr>artifacts := (artifacts s)(name \<mapsto> data)\<rparr>)
      else Inl (WriteFileFailed name))"

text \<open>The template literal of line 19.\<close>

definition section_text :: "string \<Rightarrow> string \<Rightarrow> string" where
  "section_text file lines =
     file_heading @ file @ nl @ ''```'' @ nl @ lines @ nl @ ''```'' @ nl @ nl"

text \<open>The body of the loop of lines 15 to 23, on the buffer \<^verbatim>\<open>projectContext\<close>.\<close>

definition digest_step :: "env \<Rightarrow> string \<Rightarrow> string \<times> state \<Rightarrow> string \<times> state" where
  "digest_step e file acc =
     (case acc of (projectContext, s) \<Rightarrow>
        (case fs_readFile (fs e) file of
           Inr content \<Rightarrow>
             (let lines = js_join nl (take 50 (js_split (CHR 0x0A) content))
              in (projectContext @ section_text file lines, s))
         | Inl err \<Rightarrow> (projectContext, console_log (LogReadFailed file) s)))"

fun digest_loop :: "env \<Rightarrow> string list \<Rightarrow> string \<times> state \<Rightarrow> string \<times> state" where
  "digest_loop e [] acc = acc"
| "digest_loop e (file # files) acc = digest_loop e files (digest_step e file acc)"

text \<open>
  \<^verbatim>\<open>analyzeProject\<close> up to the return of \<^verbatim>\<open>exec\<close>: \<open>Inl\<close> is the rejected promise,
  with the state reached.  The callback of \<^verbatim>\<open>exec\<close> runs later and is
  \<open>exec_callback\<close>.
\<close>

definition analyzeProject :: "env \<Rightarrow> string \<Rightarrow> state \<Rightarrow> error \<times> state + state" where
  "analyzeProject e projectPath s0 =
     (let s1 = console_log LogAnalyzing s0 in
      case findImportantFiles (fs e) projectPath of
        Inl err \<Rightarrow> Inl (err, s1)
      | Inr importantFiles \<Rightarrow>
          (case digest_loop e (take 10 importantFiles) (project_header, s1) of
             (projectContext, s2) \<Rightarrow>
               (case fs_writeFile e digest_file projectContext s2 of
                  Inl err \<Rightarrow> Inl (err, s2)
                | Inr s3 \<Rightarrow>
                    Inr ((console_log LogSending s3)\<lparr>spawned := spawned s3 @ [qwen_command]\<rparr>))))"

definition exec_callback :: "env \<Rightarrow> exec_error option \<Rightarrow> string \<Rightarrow> string \<Rightarrow> state \<Rightarrow> state" where
  "exec_callback e error stdout stderr s =
     (case error of
        Some err \<Rightarrow> console_log (ErrExec err) s
      | None \<Rightarrow>
          (let s1 = console_log (LogStdout stdout) (console_log LogResults s) in
           case fs_writeFile e report_file stdout s1 of
             Inr s2 \<Rightarrow> console_log LogSaved s2
           | Inl err \<Rightarrow> console_log (ErrUnhandled err) (console_log LogSaved s1)))"

text \<open>Line 74 and the event loop: the run of the whole script.\<close>

definition main :: "env \<Rightarrow> state \<Rightarrow> state" where
  "main e s0 =
     (case analyzeProject e ''.'' s0 of
        Inl (err, s) \<Rightarrow> console_log (ErrRejected err) s
      | Inr s \<Rightarrow>
          (case exec_result e of
             (error, stdout, stderr) \<Rightarrow> exec_callback e error stdout stderr s))"

section \<open>Notions used to state the properties\<close>

text \<open>The excerpt of a file that line 18 computes, and the section a selected file
  contributes to the digest: none when it cannot be read.\<close>

definition first_lines :: "string \<Rightarrow> string" where
  "first_lines content = js_join nl (take 50 (js_split (CHR 0x0A) content))"

definition section_of :: "env \<Rightarrow> string \<Rightarrow> string" where
  "section_of e file =
     (case fs_readFile (fs e) file of
        Inr content \<Rightarrow> section_text file (first_lines content)
      | Inl err \<Rightarrow> [])"

definition unreadable :: "env \<Rightarrow> string \<Rightarrow> bool" where
  "unreadable e file = (case fs_readFile (fs e) file of Inr content \<Rightarrow> False | Inl err \<Rightarrow> True)"

text \<open>
  The names \<^verbatim>\<open>fs.readdir\<close> yields: not empty, not \<^verbatim>\<open>.\<close> or \<^verbatim>\<open>..\<close>, and
  without a slash.
\<close>

definition valid_name :: "string \<Rightarrow> bool" where
  "valid_name s \<longleftrightarrow> s \<noteq> [] \<and> s \<noteq> ''.'' \<and> s \<noteq> ''..'' \<and> CHR ''/'' \<notin> set s"

text \<open>
  The shape of a normalised segment list: proper segments, with \<^verbatim>\<open>..\<close> only at the
  front, and only when the path may climb above its start.
\<close>

definition seg_ok :: "string \<Rightarrow> bool" where
  "seg_ok s \<longleftrightarrow> s \<noteq> [] \<and> s \<noteq> ''.'' \<and> CHR ''/'' \<notin> set s"

definition stable :: "bool \<Rightarrow> string list \<Rightarrow> bool" where
  "stable up st \<longleftrightarrow>
     list_all seg_ok st \<and> ''..'' \<notin> set (dropWhile (\<lambda>s. s = ''..'') st) \<and> (up \<or> ''..'' \<notin> set st)"

text \<open>The segments and the leading slash \<^verbatim>\<open>path.join\<close> keeps of its first argument.\<close>

definition path_stack :: "string \<Rightarrow> string list" where
  "path_stack p = normalizeString (\<not> isAbsolute p) [] (js_split (CHR ''/'') p)"

definition root_prefix :: "string \<Rightarrow> string" where
  "root_prefix p = (if isAbsolute p then ''/'' else [])"

text \<open>The path of an entry reached from \<open>dir\<close> through a chain of entry names: one
  \<^verbatim>\<open>path.join\<close> for each name, as \<^verbatim>\<open>scan\<close> builds it.\<close>

definition chain_path :: "string \<Rightarrow> string list \<Rightarrow> string" where
  "chain_path dir names = foldl path_join dir names"

text \<open>The excerpt a selected file shows in the digest, empty when it cannot be read.\<close>

definition body_of :: "env \<Rightarrow> string \<Rightarrow> string" where
  "body_of e file = (case fs_readFile (fs e) file of Inr content \<Rightarrow> first_lines content | Inl err \<Rightarrow> [])"

section \<open>An example run\<close>

text \<open>
  A small project: two source files at the top, one of them unreadable, a build directory,
  a source directory, and a text file.
\<close>

definition two_lines :: string where
  "two_lines = ''x\<newline>y''"

definition example_tree :: node where
  "example_tree =
     Dir [(''a.js'', File two_lines),
          (''b.py'', UnreadableFile),
          (''build'', Dir [(''z.js'', File ''q'')]),
          (''src'', Dir [(''m.go'', File ''w''), (''notes.txt'', File ''n'')]),
          (''c.txt'', File ''t'')]"

definition example_env :: env where
  "example_env = \<lparr>fs = example_tree, writable = (\<lambda>name. True), exec_result = (None, ''OK'', [])\<rparr>"

definition initial_state :: state where
  "initial_state = \<lparr>artifacts = Map.empty, console = [], spawned = []\<rparr>"

section \<open>Splitting and joining\<close>

lemma js_split_not_Nil [simp]: "js_split c s \<noteq> []"
  by (induction s) (auto split: list.split)

lemma js_split_Cons_other:
  "x \<noteq> c \<Longrightarrow> js_split c (x # s) = (x # hd (js_split c s)) # tl (js_split c s)"
  by (cases "js_split c s") simp_all

lemma js_split_no_sep: "l \<in> set (js_split c s) \<Longrightarrow> c \<notin> set l"
proof (induction s arbitrary: l)
  case Nil
  then show ?case by simp
next
  case (Cons x s)
  show ?case
  proof (cases "x = c")
    case True
    with Cons show ?thesis by auto
  next
    case False
    obtain h t where ht: "js_split c s = h # t"
      by (cases "js_split c s") simp_all
    with Cons False show ?thesis by auto
  qed
qed

lemma js_split_id: "c \<notin> set s \<Longrightarrow> js_split c s = [s]"
  by (induction s) auto


lemma js_split_append_sep: "js_split c (a @ c # b) = js_split c a @ js_split c b"
proof (induction a)
  case Nil
  show ?case by simp
next
  case (Cons x a)
  show ?case
  proof (cases "x = c")
    case True
    with Cons show ?thesis by simp
  next
    case False
    obtain h t where ht: "js_split c a = h # t"
      by (cases "js_split c a") simp_all
    with Cons False show ?thesis by simp
  qed
qed

lemma js_join_Cons: "ls \<noteq> [] \<Longrightarrow> js_join sep (l # ls) = l @ sep @ js_join sep ls"
  by (cases ls) simp_all

lemma js_join_split: "js_join [c] (js_split c s) = s"
proof (induction s)
  case Nil
  show ?case by simp
next
  case (Cons x s)
  obtain h t where ht: "js_split c s = h # t"
    by (cases "js_split c s") simp_all
  show ?case
  proof (cases "x = c")
    case True
    with Cons show ?thesis by (simp add: js_join_Cons)
  next
    case False
    with Cons ht show ?thesis by (cases t) simp_all
  qed
qed

lemma js_split_join:
  "ls \<noteq> [] \<Longrightarrow> \<forall>l\<in>set ls. c \<notin> set l \<Longrightarrow> js_split c (js_join [c] ls) = ls"
proof (induction ls)
  case Nil
  then show ?case by simp
next
  case (Cons l ls)
  show ?case
  proof (cases ls)
    case Nil
    with Cons.prems show ?thesis by (simp add: js_split_id)
  next
    case (Cons l' ls')
    with Cons.prems Cons.IH have "js_split c (js_join [c] ls) = ls" by simp
    moreover have "js_join [c] (l # ls) = l @ c # js_join [c] ls"
      using Cons by simp
    ultimately show ?thesis
      using Cons.prems by (simp add: js_split_append_sep js_split_id)
  qed
qed

lemma js_join_snoc: "xs \<noteq> [] \<Longrightarrow> js_join sep (xs @ [x]) = js_join sep xs @ sep @ x"
proof (induction xs)
  case Nil
  then show ?case by simp
next
  case (Cons a xs)
  then show ?case by (cases xs) simp_all
qed

lemma endsWith_suffix: "endsWith s suf \<longleftrightarrow> suffix suf s"
proof
  assume "endsWith s suf"
  then have "drop (length s - length suf) s = suf" by (simp add: endsWith_def)
  then show "suffix suf s" by (metis suffix_drop)
next
  assume "suffix suf s"
  then obtain pre where "s = pre @ suf" by (auto simp: suffix_def)
  then show "endsWith s suf" by (simp add: endsWith_def)
qed

section \<open>Normalised paths\<close>

lemma valid_name_seg_ok: "valid_name s \<Longrightarrow> seg_ok s"
  by (simp add: valid_name_def seg_ok_def)

lemma normalizeString_append:
  "normalizeString up res (xs @ ys) = normalizeString up (normalizeString up res xs) ys"
  by (induction up res xs rule: normalizeString.induct) auto

lemma normalizeString_valid: "valid_name s \<Longrightarrow> normalizeString up res [s] = res @ [s]"
  by (simp add: valid_name_def)

lemma stable_Nil: "stable up []"
  by (simp add: stable_def)

lemma stable_all_ok: "stable up st \<Longrightarrow> list_all seg_ok st"
  by (simp add: stable_def)

lemma stable_snoc_regular:
  "stable up st \<Longrightarrow> seg_ok s \<Longrightarrow> s \<noteq> ''..'' \<Longrightarrow> stable up (st @ [s])"
  by (simp add: stable_def dropWhile_append)

lemma stable_snoc_dotdot:
  "stable up st \<Longrightarrow> up \<Longrightarrow> \<forall>t\<in>set st. t = ''..'' \<Longrightarrow> stable up (st @ [''..''])"
  by (simp add: stable_def dropWhile_append seg_ok_def)

lemma dropWhile_all: "\<forall>x\<in>set xs. P x \<Longrightarrow> dropWhile P xs = []"
  by (induction xs) simp_all

lemma stable_snocD: "stable up (st @ [s]) \<Longrightarrow> stable up st"
  by (auto simp: stable_def dropWhile_append dropWhile_all split: if_splits)

lemma stable_butlast: "stable up st \<Longrightarrow> stable up (butlast st)"
  by (cases st rule: rev_cases) (auto dest: stable_snocD)

lemma stable_before_dotdot: "stable up (xs @ ''..'' # ys) \<Longrightarrow> up \<and> (\<forall>t\<in>set xs. t = ''..'')"
  by (auto simp: stable_def dropWhile_append split: if_splits)

lemma stable_last_dotdot:
  assumes "stable up st" and "st \<noteq> []" and "last st = ''..''"
  shows "\<forall>t\<in>set st. t = ''..''"
proof -
  from assms(2,3) obtain ys where "st = ys @ [''..'']"
    by (cases st rule: rev_cases) auto
  with assms(1) show ?thesis using stable_before_dotdot [of up ys "[]"] by simp
qed

lemma stable_normalizeString:
  "\<forall>s\<in>set ss. CHR ''/'' \<notin> set s \<Longrightarrow> stable up res \<Longrightarrow> stable up (normalizeString up res ss)"
proof (induction ss arbitrary: res)
  case Nil
  then show ?case by simp
next
  case (Cons s ss)
  have rest: "\<forall>s\<in>set ss. CHR ''/'' \<notin> set s" using Cons.prems(1) by simp
  consider (skip) "s = [] \<or> s = ''.''"
    | (pop) "s = ''..''" "res \<noteq> []" "last res \<noteq> ''..''"
    | (up) "s = ''..''" "res = [] \<or> last res = ''..''" "up"
    | (drop) "s = ''..''" "res = [] \<or> last res = ''..''" "\<not> up"
    | (push) "s \<noteq> []" "s \<noteq> ''.''" "s \<noteq> ''..''"
    by blast
  then show ?case
  proof cases
    case skip
    then show ?thesis using Cons.IH [OF rest Cons.prems(2)] by auto
  next
    case pop
    then show ?thesis using Cons.IH [OF rest stable_butlast [OF Cons.prems(2)]] by simp
  next
    case up
    have "\<forall>t\<in>set res. t = ''..''"
    proof (cases "res = []")
      case True
      then show ?thesis by simp
    next
      case False
      with up(2) show ?thesis using stable_last_dotdot [OF Cons.prems(2)] by simp
    qed
    then have "stable up (res @ [''..''])"
      using stable_snoc_dotdot [OF Cons.prems(2) up(3)] by simp
    then show ?thesis using up Cons.IH [OF rest] by auto
  next
    case drop
    then show ?thesis using Cons.IH [OF rest Cons.prems(2)] by auto
  next
    case push
    then have "seg_ok s" using Cons.prems(1) by (simp add: seg_ok_def)
    then have "stable up (res @ [s])"
      using stable_snoc_regular [OF Cons.prems(2)] push by simp
    then show ?thesis using push Cons.IH [OF rest] by simp
  qed
qed

lemma normalizeString_stable:
  "stable up (res @ ss) \<Longrightarrow> normalizeString up res ss = res @ ss"
proof (induction ss arbitrary: res)
  case Nil
  then show ?case by simp
next
  case (Cons s ss)
  have ok: "seg_ok s" using stable_all_ok [OF Cons.prems] by simp
  have step: "normalizeString up (res @ [s]) ss = (res @ [s]) @ ss"
    using Cons.prems by (intro Cons.IH) simp
  show ?case
  proof (cases "s = ''..''")
    case True
    with Cons.prems have "up" and "\<forall>t\<in>set res. t = ''..''"
      using stable_before_dotdot by blast+
    then have "res = [] \<or> last res = ''..''" by (cases res rule: rev_cases) auto
    with True \<open>up\<close> step show ?thesis by auto
  next
    case False
    with ok step show ?thesis by (simp add: seg_ok_def)
  qed
qed

lemma stable_path_stack: "stable (\<not> isAbsolute p) (path_stack p)"
  unfolding path_stack_def
  by (rule stable_normalizeString) (auto dest: js_split_no_sep simp: stable_Nil)

lemma js_join_snoc_eq:
  "js_join sep (xs @ [x]) = (if xs = [] then x else js_join sep xs @ sep @ x)"
  by (simp add: js_join_snoc)

lemma js_join_nonempty: "x \<noteq> [] \<Longrightarrow> js_join sep (xs @ [x]) \<noteq> []"
  by (simp add: js_join_snoc_eq)

lemma js_join_hd:
  assumes "xs \<noteq> []" and "hd xs \<noteq> []"
  shows "js_join sep xs \<noteq> [] \<and> hd (js_join sep xs) = hd (hd xs)"
proof (cases xs)
  case Nil
  with assms show ?thesis by simp
next
  case (Cons x ys)
  with assms show ?thesis by (cases ys) auto
qed

lemma path_join_valid:
  assumes "valid_name item"
  shows "path_join cur item = root_prefix cur @ js_join ''/'' (path_stack cur @ [item])"
proof (cases "cur = []")
  case True
  have "last item \<in> set item" and noslash: "CHR ''/'' \<notin> set item"
    using assms by (simp_all add: valid_name_def)
  then have lastp: "last item \<noteq> CHR ''/''" by metis
  have abs: "\<not> isAbsolute item"
    using assms by (cases item) (auto simp: isAbsolute_def valid_name_def)
  have st: "normalizeString True [] (js_split (CHR ''/'') item) = [item]"
    using assms noslash by (simp add: js_split_id) (simp add: valid_name_def)
  show ?thesis
    using assms True lastp abs
    by (simp add: path_join_def normalize_def st root_prefix_def path_stack_def isAbsolute_def
          valid_name_def)
next
  case False
  let ?p = "cur @ ''/'' @ item"
  have abs: "isAbsolute ?p = isAbsolute cur"
    using False by (cases cur) (simp_all add: isAbsolute_def)
  have segs: "js_split (CHR ''/'') ?p = js_split (CHR ''/'') cur @ [item]"
    using assms by (simp add: js_split_append_sep js_split_id valid_name_def)
  have st: "normalizeString (\<not> isAbsolute cur) [] (js_split (CHR ''/'') ?p) = path_stack cur @ [item]"
    unfolding segs normalizeString_append path_stack_def
    by (rule normalizeString_valid [OF assms])
  have ne: "js_join ''/'' (path_stack cur @ [item]) \<noteq> []"
    using assms by (intro js_join_nonempty) (simp add: valid_name_def)
  have "last item \<in> set item" and "CHR ''/'' \<notin> set item" and "item \<noteq> []"
    using assms by (simp_all add: valid_name_def)
  then have "last item \<noteq> CHR ''/''" and "last ?p = last item" by (metis, simp)
  then have lastp: "last ?p \<noteq> CHR ''/''" by simp
  have pne: "?p \<noteq> []" by simp
  have "normalize ?p = root_prefix cur @ js_join ''/'' (path_stack cur @ [item])"
    unfolding normalize_def Let_def abs st root_prefix_def
    using pne ne lastp by simp
  moreover have "path_join cur item = normalize ?p"
    using False \<open>item \<noteq> []\<close> by (simp add: path_join_def)
  ultimately show ?thesis by simp
qed


lemma path_join_stack:
  assumes "valid_name item"
  shows "path_stack (path_join cur item) = path_stack cur @ [item]"
    and "isAbsolute (path_join cur item) = isAbsolute cur"
proof -
  let ?st = "path_stack cur @ [item]"
  let ?q = "js_join ''/'' ?st"
  have pj: "path_join cur item = root_prefix cur @ ?q"
    by (rule path_join_valid [OF assms])
  have st: "stable (\<not> isAbsolute cur) ?st"
    using stable_snoc_regular [OF stable_path_stack [of cur]] assms
    by (simp add: valid_name_def seg_ok_def)
  have allok: "list_all seg_ok ?st" by (rule stable_all_ok [OF st])
  have hdok: "hd ?st \<noteq> [] \<and> CHR ''/'' \<notin> set (hd ?st)"
    using allok by (cases "path_stack cur") (simp_all add: seg_ok_def)
  then have qhd: "?q \<noteq> [] \<and> hd ?q = hd (hd ?st)"
    by (intro js_join_hd) simp_all
  have "hd (hd ?st) \<in> set (hd ?st)" using hdok by simp
  with hdok have "hd (hd ?st) \<noteq> CHR ''/''" by metis
  with qhd have qabs: "\<not> isAbsolute ?q"
    by (cases ?q) (simp_all add: isAbsolute_def)
  show abs: "isAbsolute (path_join cur item) = isAbsolute cur"
    using qabs by (simp add: pj root_prefix_def) (simp add: isAbsolute_def)
  have noslash: "\<forall>l\<in>set ?st. CHR ''/'' \<notin> set l"
    using allok by (simp add: list_all_iff seg_ok_def)
  have sq: "js_split (CHR ''/'') ?q = ?st"
    using js_split_join [of ?st "CHR ''/''"] noslash by simp
  have "normalizeString (\<not> isAbsolute cur) [] (js_split (CHR ''/'') (root_prefix cur @ ?q)) = ?st"
  proof (cases "isAbsolute cur")
    case True
    then have "js_split (CHR ''/'') (root_prefix cur @ ?q) = [] # ?st"
      using sq by (simp add: root_prefix_def)
    then show ?thesis
      using normalizeString_stable [of "\<not> isAbsolute cur" "[]" ?st] st by simp
  next
    case False
    then show ?thesis
      using normalizeString_stable [of "\<not> isAbsolute cur" "[]" ?st] st sq
      by (simp add: root_prefix_def)
  qed
  then show "path_stack (path_join cur item) = path_stack cur @ [item]"
    unfolding path_stack_def [of "path_join cur item"] abs
    unfolding pj .
qed

lemma chain_path_valid:
  assumes "list_all valid_name names" and "names \<noteq> []"
  shows "chain_path cur names = root_prefix cur @ js_join ''/'' (path_stack cur @ names)"
  using assms
proof (induction names arbitrary: cur)
  case Nil
  then show ?case by simp
next
  case (Cons item names)
  have v: "valid_name item" using Cons.prems by simp
  show ?case
  proof (cases "names = []")
    case True
    then show ?thesis by (simp add: chain_path_def path_join_valid [OF v])
  next
    case False
    have "chain_path cur (item # names) = chain_path (path_join cur item) names"
      by (simp add: chain_path_def)
    also have "\<dots> = root_prefix (path_join cur item)
                 @ js_join ''/'' (path_stack (path_join cur item) @ names)"
      using Cons.prems False by (intro Cons.IH) simp_all
    finally show ?thesis
      by (simp add: path_join_stack [OF v] root_prefix_def)
  qed
qed

lemma chain_path_inj:
  assumes "list_all valid_name xs" and "list_all valid_name ys"
    and "xs \<noteq> []" and "ys \<noteq> []"
    and "chain_path cur xs = chain_path cur ys"
  shows "xs = ys"
proof -
  have ok: "\<forall>l\<in>set (path_stack cur). CHR ''/'' \<notin> set l"
    using stable_all_ok [OF stable_path_stack [of cur]] by (simp add: list_all_iff seg_ok_def)
  have okx: "\<forall>l\<in>set (path_stack cur @ xs). CHR ''/'' \<notin> set l"
    using ok assms(1) by (simp add: list_all_iff valid_name_def ball_Un)
  have oky: "\<forall>l\<in>set (path_stack cur @ ys). CHR ''/'' \<notin> set l"
    using ok assms(2) by (simp add: list_all_iff valid_name_def ball_Un)
  have eq: "js_join ''/'' (path_stack cur @ xs) = js_join ''/'' (path_stack cur @ ys)"
    using assms(5)
    unfolding chain_path_valid [OF assms(1,3), of cur] chain_path_valid [OF assms(2,4), of cur]
    by (rule same_append_eq [THEN iffD1])
  have sx: "js_split (CHR ''/'') (js_join ''/'' (path_stack cur @ xs)) = path_stack cur @ xs"
    using js_split_join [of "path_stack cur @ xs" "CHR ''/''"] assms(3) okx by simp
  have sy: "js_split (CHR ''/'') (js_join ''/'' (path_stack cur @ ys)) = path_stack cur @ ys"
    using js_split_join [of "path_stack cur @ ys" "CHR ''/''"] assms(4) oky by simp
  have "path_stack cur @ xs = path_stack cur @ ys"
    using sx sy unfolding eq by (rule trans [OF sym])
  then show ?thesis by (rule same_append_eq [THEN iffD1])
qed

lemma js_join_suffix: "suffix x (js_join sep (xs @ [x]))"
  by (simp add: js_join_snoc_eq suffix_def)

lemma chain_path_suffix:
  assumes "list_all valid_name names" and "names \<noteq> []"
  shows "suffix (last names) (chain_path cur names)"
proof -
  obtain xs x where n: "names = xs @ [x]" using assms(2) by (cases names rule: rev_cases) auto
  have "suffix x (js_join ''/'' ((path_stack cur @ xs) @ [x]))" by (rule js_join_suffix)
  then obtain zs where "js_join ''/'' ((path_stack cur @ xs) @ [x]) = zs @ x"
    by (auto simp: suffix_def)
  then have "chain_path cur names = (root_prefix cur @ zs) @ x"
    using n chain_path_valid [OF assms, of cur] by simp
  then show ?thesis unfolding suffix_def n by auto
qed

section \<open>The digest loop\<close>

lemma digest_step_eq:
  "digest_step e file (ctx, s) =
     (ctx @ section_of e file,
      s\<lparr>console := console s @ (if unreadable e file then [LogReadFailed file] else [])\<rparr>)"
  by (simp add: digest_step_def section_of_def unreadable_def first_lines_def console_log_def
           split: sum.split)

lemma digest_loop_eq:
  "digest_loop e files (ctx, s) =
     (ctx @ concat (map (section_of e) files),
      s\<lparr>console := console s @ map LogReadFailed (filter (unreadable e) files)\<rparr>)"
proof (induction files arbitrary: ctx s)
  case Nil
  show ?case by simp
next
  case (Cons f files)
  show ?case by (simp add: digest_step_eq Cons.IH)
qed

lemma digest_file_neq_report_file: "digest_file \<noteq> report_file"
  by (simp add: digest_file_def report_file_def)

lemma analyzeProject_eq:
  assumes "findImportantFiles (fs e) p = Inr files" and "writable e digest_file"
  shows "analyzeProject e p s0 =
           Inr (s0\<lparr>artifacts := (artifacts s0)(digest_file \<mapsto>
                       project_header @ concat (map (section_of e) (take 10 files))),
                    console := console s0 @ [LogAnalyzing]
                       @ map LogReadFailed (filter (unreadable e) (take 10 files)) @ [LogSending],
                    spawned := spawned s0 @ [qwen_command]\<rparr>)"
  using assms
  by (simp add: analyzeProject_def digest_loop_eq fs_writeFile_def console_log_def)

lemma analyzeProject_Inr:
  assumes "analyzeProject e p s0 = Inr s"
  shows "\<exists>files. findImportantFiles (fs e) p = Inr files \<and> writable e digest_file"
  using assms
  by (auto simp: analyzeProject_def digest_loop_eq fs_writeFile_def console_log_def Let_def
           split: sum.splits if_splits)

lemma find_empty_dir: "findImportantFiles (Dir []) ''.'' = Inr []"
  by (simp add: findImportantFiles_def fs_lookup_def)

section \<open>The example run, evaluated\<close>

lemmas eval_path = path_join_def normalize_def isAbsolute_def endsWith_def
  importantExtensions_def ignoreDirs_def

lemma example_find: "findImportantFiles example_tree ''.'' = Inr [''a.js'', ''b.py'', ''src/m.go'']"
  by (simp add: example_tree_def findImportantFiles_def fs_lookup_def eval_path)

lemma example_reads:
  "fs_readFile example_tree ''a.js'' = Inr two_lines"
  "fs_readFile example_tree ''b.py'' = Inl (ReadFileFailed ''b.py'')"
  "fs_readFile example_tree ''src/m.go'' = Inr ''w''"
  by (simp_all add: example_tree_def fs_readFile_def fs_lookup_def)

lemma example_first_lines:
  "first_lines two_lines = two_lines" "first_lines ''w'' = ''w''"
  by (simp_all add: first_lines_def nl_def two_lines_def)

lemma example_sections:
  "section_of example_env ''a.js'' = section_text ''a.js'' two_lines"
  "section_of example_env ''b.py'' = []"
  "section_of example_env ''src/m.go'' = section_text ''src/m.go'' ''w''"
  "unreadable example_env ''a.js'' = False"
  "unreadable example_env ''b.py'' = True"
  "unreadable example_env ''src/m.go'' = False"
  by (simp_all add: section_of_def unreadable_def example_env_def example_reads example_first_lines)

section \<open>The report\<close>

text \<open>
  C5.  When \<^verbatim>\<open>exec\<close> has been called and its callback receives no error, and the write
  of line 40 succeeds, the report file holds exactly the \<^verbatim>\<open>stdout\<close> string the callback
  received: nothing is added, removed or changed.  For \<^verbatim>\<open>stdout\<close> equal to
  \<^verbatim>\<open>OK\<close> the report is \<^verbatim>\<open>OK\<close>.
\<close>

theorem report_verbatim:
  assumes "analyzeProject e ''.'' s0 = Inr s"
    and "exec_result e = (None, stdout, stderr)"
    and "writable e report_file"
  shows "artifacts (main e s0) report_file = Some stdout"
  using assms
  by (simp add: main_def exec_callback_def fs_writeFile_def console_log_def)

theorem report_verbatim_witness:
  "artifacts (main \<lparr>fs = Dir [], writable = (\<lambda>name. True), exec_result = (None, ''OK'', [])\<rparr>
                   \<lparr>artifacts = Map.empty, console = [], spawned = []\<rparr>) report_file = Some ''OK''"
proof -
  let ?e = "\<lparr>fs = Dir [], writable = (\<lambda>name. True), exec_result = (None, ''OK'', [])\<rparr>"
  let ?init = "\<lparr>artifacts = Map.empty, console = [], spawned = []\<rparr>"
  have "\<exists>s. analyzeProject ?e ''.'' ?init = Inr s"
    by (simp add: analyzeProject_eq [where files = "[]"] find_empty_dir)
  then obtain s where s: "analyzeProject ?e ''.'' ?init = Inr s" ..
  show ?thesis
    by (rule report_verbatim [OF s]) simp_all
qed

text \<open>
  C4.  When \<^verbatim>\<open>exec\<close> has been called and its callback receives an error (a non-zero
  exit or a failed spawn), the callback prints the error with \<^verbatim>\<open>console.error\<close> and
  returns: the run ends in the state \<^verbatim>\<open>analyzeProject\<close> left, with that one line added
  to the console, and the report file is as it was before the run, absent or with its old
  contents.
\<close>

theorem exec_failure_no_report:
  assumes "analyzeProject e ''.'' s0 = Inr s"
    and "exec_result e = (Some err, stdout, stderr)"
  shows "main e s0 = s\<lparr>console := console s @ [ErrExec err]\<rparr>
       \<and> artifacts (main e s0) report_file = artifacts s0 report_file"
proof -
  from analyzeProject_Inr [OF assms(1)] obtain files
    where f: "findImportantFiles (fs e) ''.'' = Inr files" and w: "writable e digest_file"
    by blast
  have m: "main e s0 = s\<lparr>console := console s @ [ErrExec err]\<rparr>"
    using assms by (simp add: main_def exec_callback_def console_log_def)
  have "artifacts s report_file = artifacts s0 report_file"
    using assms(1) digest_file_neq_report_file
    by (simp add: analyzeProject_eq [OF f w]) auto
  with m show ?thesis by simp
qed

theorem exec_failure_no_report_witness:
  "main \<lparr>fs = Dir [], writable = (\<lambda>name. True), exec_result = (Some (NonZeroExit 1), ''partial'', ''boom'')\<rparr>
        \<lparr>artifacts = [report_file \<mapsto> ''old''], console = [], spawned = []\<rparr>
     = \<lparr>artifacts = [report_file \<mapsto> ''old'', digest_file \<mapsto> project_header],
        console = [LogAnalyzing, LogSending, ErrExec (NonZeroExit 1)],
        spawned = [qwen_command]\<rparr>
   \<and> artifacts (main \<lparr>fs = Dir [], writable = (\<lambda>name. True),
                       exec_result = (Some (NonZeroExit 1), ''partial'', ''boom'')\<rparr>
                      \<lparr>artifacts = [report_file \<mapsto> ''old''], console = [], spawned = []\<rparr>) report_file
     = Some ''old''"
proof -
  let ?e = "\<lparr>fs = Dir [], writable = (\<lambda>name. True),
             exec_result = (Some (NonZeroExit 1), ''partial'', ''boom'')\<rparr>"
  let ?init = "\<lparr>artifacts = [report_file \<mapsto> ''old''], console = [], spawned = []\<rparr>"
  let ?mid = "\<lparr>artifacts = [report_file \<mapsto> ''old'', digest_file \<mapsto> project_header],
             console = [LogAnalyzing, LogSending], spawned = [qwen_command]\<rparr>"
  have s: "analyzeProject ?e ''.'' ?init = Inr ?mid"
    by (simp add: analyzeProject_eq [where files = "[]"] find_empty_dir del: fun_upd_apply)
  have r: "exec_result ?e = (Some (NonZeroExit 1), ''partial'', ''boom'')" by simp
  show ?thesis
    using exec_failure_no_report [OF s r] digest_file_neq_report_file by auto
qed

section \<open>The digest\<close>

text \<open>
  C9.  When \<^verbatim>\<open>findImportantFiles\<close> returns the empty list and the write of line 26
  succeeds, \<^verbatim>\<open>analyzeProject\<close> writes the digest file with exactly the header of
  line 13 as its contents, and calls \<^verbatim>\<open>exec\<close> with the command that names the digest
  file: the empty list is not treated apart.
\<close>

theorem empty_collection_still_runs:
  assumes "findImportantFiles (fs e) projectPath = Inr []"
    and "writable e digest_file"
  shows "analyzeProject e projectPath s0 =
           Inr (s0\<lparr>artifacts := (artifacts s0)(digest_file \<mapsto> project_header),
                    console := console s0 @ [LogAnalyzing, LogSending],
                    spawned := spawned s0 @ [qwen_command]\<rparr>)"
  using analyzeProject_eq [OF assms, of s0] by simp

theorem empty_collection_still_runs_witness:
  "analyzeProject \<lparr>fs = Dir [], writable = (\<lambda>name. True), exec_result = (None, ''OK'', [])\<rparr> ''.''
       \<lparr>artifacts = Map.empty, console = [], spawned = []\<rparr> =
     Inr \<lparr>artifacts = [digest_file \<mapsto> project_header],
          console = [LogAnalyzing, LogSending],
          spawned = [qwen_command]\<rparr>"
  using empty_collection_still_runs
     [of "\<lparr>fs = Dir [], writable = (\<lambda>name. True), exec_result = (None, ''OK'', [])\<rparr>" "''.''"
         "\<lparr>artifacts = Map.empty, console = [], spawned = []\<rparr>"]
  by (simp add: find_empty_dir)

text \<open>
  C8.  A selected file whose read fails leaves the buffer \<^verbatim>\<open>projectContext\<close> as it was:
  the loop body returns the buffer unchanged, so no heading and no part of a section of that
  file is ever appended, and the digest of a selection is the digest of the selection
  without that file.
\<close>

theorem failed_read_leaves_digest:
  assumes "fs_readFile (fs e) file = Inl err"
  shows "fst (digest_step e file (projectContext, s)) = projectContext
       \<and> fst (digest_loop e (before @ file # after) (projectContext, s)) =
           fst (digest_loop e (before @ after) (projectContext, s))"
  using assms by (simp add: digest_step_eq digest_loop_eq section_of_def)

theorem failed_read_leaves_digest_witness:
  "fst (digest_step example_env ''b.py'' (project_header, initial_state)) = project_header
   \<and> fst (digest_loop example_env [''a.js'', ''b.py'', ''src/m.go''] (project_header, initial_state)) =
       fst (digest_loop example_env [''a.js'', ''src/m.go''] (project_header, initial_state))"
proof -
  have "fs_readFile (fs example_env) ''b.py'' = Inl (ReadFileFailed ''b.py'')"
    by (simp add: example_env_def example_reads)
  from failed_read_leaves_digest [OF this, of project_header initial_state "[''a.js'']" "[''src/m.go'']"]
  show ?thesis by simp
qed

text \<open>
  C3.  After a successful collection and with a successful write of the digest file, the
  digest is the header followed by the sections of the selected files that could be read,
  in order; every selected file that could not be read contributes nothing to it and one
  warning with its path to the console, and the loop goes on to the files after it.
\<close>

theorem read_failure_isolated:
  assumes "findImportantFiles (fs e) projectPath = Inr importantFiles"
    and "writable e digest_file"
  shows "\<exists>s. analyzeProject e projectPath s0 = Inr s
       \<and> artifacts s digest_file =
           Some (project_header @ concat (map (section_of e) (take 10 importantFiles)))
       \<and> console s = console s0 @ [LogAnalyzing]
           @ map LogReadFailed (filter (unreadable e) (take 10 importantFiles)) @ [LogSending]"
  by (simp add: analyzeProject_eq [OF assms])

theorem read_failure_isolated_witness:
  "\<exists>s. analyzeProject example_env ''.'' initial_state = Inr s
       \<and> artifacts s digest_file =
           Some (project_header @ section_text ''a.js'' two_lines
                   @ section_text ''src/m.go'' ''w'')
       \<and> console s = [LogAnalyzing, LogReadFailed ''b.py'', LogSending]"
proof -
  have f: "findImportantFiles (fs example_env) ''.'' = Inr [''a.js'', ''b.py'', ''src/m.go'']"
    by (simp add: example_env_def example_find)
  have w: "writable example_env digest_file" by (simp add: example_env_def)
  from read_failure_isolated [OF f w, of initial_state]
  show ?thesis by (simp add: example_sections initial_state_def)
qed

lemma js_split_first_lines:
  "js_split (CHR 0x0A) (first_lines content) = take 50 (js_split (CHR 0x0A) content)"
proof -
  have "take 50 (js_split (CHR 0x0A) content) \<noteq> []" by simp
  moreover have "\<forall>l\<in>set (take 50 (js_split (CHR 0x0A) content)). CHR 0x0A \<notin> set l"
    by (meson in_set_takeD js_split_no_sep)
  ultimately show ?thesis
    unfolding first_lines_def nl_def by (rule js_split_join)
qed

lemma sections_as_pairs:
  "concat (map (section_of e) files) =
     concat (map (\<lambda>(file, body). section_text file body)
       (map (\<lambda>file. (file, body_of e file)) (filter (\<lambda>file. \<not> unreadable e file) files)))"
  by (induction files) (auto simp: section_of_def unreadable_def body_of_def split: sum.splits)

text \<open>
  C2.  The digest that \<^verbatim>\<open>analyzeProject\<close> writes is the header followed by sections
  for at most 10 files; the files of the sections are, in the collector's order, among the
  first 10 entries of the collected list; and the body of each section, split into lines,
  is the first 50 lines of the file's text (all of them when there are fewer), whatever
  the length of the file.
\<close>

theorem digest_bounded:
  assumes "findImportantFiles (fs e) projectPath = Inr importantFiles"
    and "analyzeProject e projectPath s0 = Inr s"
  shows "\<exists>secs. artifacts s digest_file =
             Some (project_header @ concat (map (\<lambda>(file, body). section_text file body) secs))
         \<and> length secs \<le> 10
         \<and> subseq (map fst secs) (take 10 importantFiles)
         \<and> (\<forall>(file, body)\<in>set secs. \<exists>content.
               fs_readFile (fs e) file = Inr content
               \<and> js_split (CHR 0x0A) body = take 50 (js_split (CHR 0x0A) content)
               \<and> length (js_split (CHR 0x0A) body) \<le> 50)"
proof -
  let ?sel = "filter (\<lambda>file. \<not> unreadable e file) (take 10 importantFiles)"
  let ?secs = "map (\<lambda>file. (file, body_of e file)) ?sel"
  from analyzeProject_Inr [OF assms(2)] assms(1) have w: "writable e digest_file" by auto
  have "artifacts s digest_file =
          Some (project_header @ concat (map (section_of e) (take 10 importantFiles)))"
    using assms(2) by (simp add: analyzeProject_eq [OF assms(1) w]) auto
  then have a: "artifacts s digest_file =
          Some (project_header @ concat (map (\<lambda>(file, body). section_text file body) ?secs))"
    by (simp only: sections_as_pairs)
  have "length ?secs \<le> length (take 10 importantFiles)"
    by (simp del: length_take)
  then have b: "length ?secs \<le> 10" by simp
  have c: "subseq (map fst ?secs) (take 10 importantFiles)"
    by (simp add: comp_def)
  have d: "\<forall>(file, body)\<in>set ?secs. \<exists>content.
               fs_readFile (fs e) file = Inr content
               \<and> js_split (CHR 0x0A) body = take 50 (js_split (CHR 0x0A) content)
               \<and> length (js_split (CHR 0x0A) body) \<le> 50"
    by (auto simp: unreadable_def body_of_def js_split_first_lines split: sum.splits)
  from a b c d show ?thesis by blast
qed

theorem digest_bounded_witness:
  "\<exists>s secs. analyzeProject example_env ''.'' initial_state = Inr s
     \<and> artifacts s digest_file =
           Some (project_header @ concat (map (\<lambda>(file, body). section_text file body) secs))
     \<and> length secs \<le> 10
     \<and> subseq (map fst secs) (take 10 [''a.js'', ''b.py'', ''src/m.go''])
     \<and> (\<forall>(file, body)\<in>set secs. \<exists>content.
           fs_readFile (fs example_env) file = Inr content
           \<and> js_split (CHR 0x0A) body = take 50 (js_split (CHR 0x0A) content)
           \<and> length (js_split (CHR 0x0A) body) \<le> 50)"
proof -
  have f: "findImportantFiles (fs example_env) ''.'' = Inr [''a.js'', ''b.py'', ''src/m.go'']"
    by (simp add: example_env_def example_find)
  have w: "writable example_env digest_file" by (simp add: example_env_def)
  obtain s where s: "analyzeProject example_env ''.'' initial_state = Inr s"
    using analyzeProject_eq [OF f w, of initial_state] by simp
  from digest_bounded [OF f s] s show ?thesis by blast
qed

end
